theory Spec2Isabelle
  imports Main "HOL-Library.AList" "HOL-Library.Sublist"
begin

section \<open>Python strings\<close>

text \<open>
  A Python \<^verbatim>\<open>str\<close> is modelled as a \<^typ>\<open>string\<close>: a list of characters, each
  character standing for the code point of the same number (0 to 255). On this range the
  character classes of Python are the following: \<^verbatim>\<open>str.isspace\<close>, which
  \<^verbatim>\<open>str.split()\<close> and \<^verbatim>\<open>str.strip()\<close> use, holds of the code points
  9 to 13, 28 to 32, 133 and 160; \<^verbatim>\<open>\d\<close> of the module \<^verbatim>\<open>re\<close> holds
  of the ten digits; \<^verbatim>\<open>str.lower\<close> maps every character on its own, and moves the
  capital letters (65 to 90, and 192 to 222 without 215) up by 32.
\<close>

definition is_space :: "char \<Rightarrow> bool" where
  "is_space c = (c \<in> set [CHR 0x09, CHR 0x0A, CHR 0x0B, CHR 0x0C, CHR 0x0D,
                          CHR 0x1C, CHR 0x1D, CHR 0x1E, CHR 0x1F, CHR 0x20,
                          CHR 0x85, CHR 0xA0])"

definition is_digit :: "char \<Rightarrow> bool" where
  "is_digit c = (c \<in> set ''0123456789'')"

definition lower_char :: "char \<Rightarrow> char" where
  "lower_char c =
     (let n = (of_char c :: nat)
      in if (65 \<le> n \<and> n \<le> 90) \<or> (192 \<le> n \<and> n \<le> 222 \<and> n \<noteq> 215)
         then char_of (n + 32) else c)"

text \<open>\<^verbatim>\<open>s.lower()\<close>\<close>

definition py_lower :: "string \<Rightarrow> string" where
  "py_lower s = map lower_char s"

text \<open>\<^verbatim>\<open>s.strip()\<close>: whitespace removed at both ends.\<close>

definition py_strip :: "string \<Rightarrow> string" where
  "py_strip s = rev (dropWhile is_space (rev (dropWhile is_space s)))"

text \<open>\<^verbatim>\<open>s.startswith(sub)\<close>\<close>

fun startswith :: "string \<Rightarrow> string \<Rightarrow> bool" where
  "startswith s [] = True"
| "startswith [] (x # xs) = False"
| "startswith (c # cs) (x # xs) = (c = x \<and> startswith cs xs)"

text \<open>\<^verbatim>\<open>sub in s\<close>: the text \<open>sub\<close> starts at some position of \<open>s\<close>.\<close>

fun py_in :: "string \<Rightarrow> string \<Rightarrow> bool" where
  "py_in sub [] = (sub = [])"
| "py_in sub (c # cs) = (startswith (c # cs) sub \<or> py_in sub cs)"

text \<open>
  \<^verbatim>\<open>s.split(sep)\<close> for a separator of one character: the fields between the
  separators, empty fields kept, so the result is never the empty list.
\<close>

fun py_split :: "char \<Rightarrow> string \<Rightarrow> string list" where
  "py_split sep [] = [[]]"
| "py_split sep (c # cs) =
     (if c = sep then [] # py_split sep cs
      else (case py_split sep cs of
              [] \<Rightarrow> [[c]]
            | w # ws \<Rightarrow> (c # w) # ws))"

text \<open>
  \<^verbatim>\<open>s.split()\<close>: the maximal runs of characters that are not whitespace. The first
  argument is the word read so far.
\<close>

fun split_words :: "string \<Rightarrow> string \<Rightarrow> string list" where
  "split_words cur [] = (if cur = [] then [] else [cur])"
| "split_words cur (c # cs) =
     (if is_space c
      then (if cur = [] then split_words [] cs else cur # split_words [] cs)
      else split_words (cur @ [c]) cs)"

definition py_split_ws :: "string \<Rightarrow> string list" where
  "py_split_ws s = split_words [] s"

section \<open>The regular expression of the timestamps\<close>

text \<open>
  The pattern \<^verbatim>\<open>(\d{2}:\d{2}:\d{2})\<close> is a sequence of eight atoms, each of which
  consumes one character. \<^verbatim>\<open>re.search\<close> tries the positions of the line from left
  to right and returns the text of the first match (\<^verbatim>\<open>match.group(0)\<close>).
\<close>

datatype atom = Digit | Lit char

fun atom_matches :: "atom \<Rightarrow> char \<Rightarrow> bool" where
  "atom_matches Digit c = is_digit c"
| "atom_matches (Lit x) c = (c = x)"

fun match_prefix :: "atom list \<Rightarrow> string \<Rightarrow> string option" where
  "match_prefix [] s = Some []"
| "match_prefix (a # as) [] = None"
| "match_prefix (a # as) (c # cs) =
     (if atom_matches a c then map_option ((#) c) (match_prefix as cs) else None)"

fun re_search :: "atom list \<Rightarrow> string \<Rightarrow> string option" where
  "re_search pat [] = match_prefix pat []"
| "re_search pat (c # cs) =
     (case match_prefix pat (c # cs) of
        Some m \<Rightarrow> Some m
      | None \<Rightarrow> re_search pat cs)"

definition timestamp_pattern :: "atom list" where
  "timestamp_pattern =
     [Digit, Digit, Lit (CHR '':''), Digit, Digit, Lit (CHR '':''), Digit, Digit]"

section \<open>Errors and dictionaries\<close>

datatype error = IndexError | KeyError | ProviderError | NetworkError

text \<open>
  The dictionary \<^verbatim>\<open>timestamps\<close> is an association list in insertion order:
  assigning to a key that is present replaces its value in place, assigning to a new key
  appends the entry, which is what \<^const>\<open>AList.update\<close> does.
\<close>

type_synonym timestamp_index = "(string \<times> string list) list"

text \<open>\<^verbatim>\<open>d[k].append(v)\<close>: the subscript raises \<^verbatim>\<open>KeyError\<close> on a missing key.\<close>

definition dict_append :: "string \<Rightarrow> string \<Rightarrow> timestamp_index \<Rightarrow> error + timestamp_index" where
  "dict_append k v d =
     (case map_of d k of
        None \<Rightarrow> Inl KeyError
      | Some l \<Rightarrow> Inr (AList.update k (l @ [v]) d))"

text \<open>\<^verbatim>\<open>claim.split(':')[0]\<close>\<close>

definition claim_topic :: "string \<Rightarrow> error + string" where
  "claim_topic claim =
     (case py_split (CHR '':'') claim of
        [] \<Rightarrow> Inl IndexError
      | keyword # _ \<Rightarrow> Inr keyword)"

section \<open>extract\_timestamps\<close>

text \<open>
  \<^verbatim>\<open>any(word.lower() in line.lower() for word in keyword.split())\<close>
\<close>

definition any_word_in :: "string \<Rightarrow> string \<Rightarrow> bool" where
  "any_word_in keyword line =
     list_ex (\<lambda>word. py_in (py_lower word) (py_lower line)) (py_split_ws keyword)"

text \<open>The inner loop, over the lines of the transcript.\<close>

fun scan_transcript :: "string \<Rightarrow> string list \<Rightarrow> timestamp_index \<Rightarrow> error + timestamp_index" where
  "scan_transcript keyword [] timestamps = Inr timestamps"
| "scan_transcript keyword (line # rest) timestamps =
     (if any_word_in keyword line
      then (case re_search timestamp_pattern line of
              Some m \<Rightarrow>
                (case dict_append keyword m timestamps of
                   Inl e \<Rightarrow> Inl e
                 | Inr timestamps' \<Rightarrow> scan_transcript keyword rest timestamps')
            | None \<Rightarrow> scan_transcript keyword rest timestamps)
      else scan_transcript keyword rest timestamps)"

text \<open>The outer loop, over the lines of the claims.\<close>

fun scan_claims :: "string \<Rightarrow> string list \<Rightarrow> timestamp_index \<Rightarrow> error + timestamp_index" where
  "scan_claims transcript [] timestamps = Inr timestamps"
| "scan_claims transcript (claim # rest) timestamps =
     (case claim_topic claim of
        Inl e \<Rightarrow> Inl e
      | Inr keyword \<Rightarrow>
          (case scan_transcript keyword (py_split (CHR ''\<newline>'') transcript)
                  (AList.update keyword [] timestamps) of
             Inl e \<Rightarrow> Inl e
           | Inr timestamps' \<Rightarrow> scan_claims transcript rest timestamps'))"

definition extract_timestamps :: "string \<Rightarrow> string \<Rightarrow> error + timestamp_index" where
  "extract_timestamps transcript claims =
     scan_claims transcript (py_split (CHR ''\<newline>'') claims) []"

section \<open>The outside world\<close>

text \<open>
  The program calls a language model and a search engine. Both are outside the
  repository, so they are parameters of the model; the state of the outside world, of any
  type \<open>'w\<close>, is passed through every call, and a call either fails or returns.
  \<^item> \<open>chat_completion env prompt\<close> stands for
    \<^verbatim>\<open>openai.ChatCompletion.create(model="gpt-4o", messages=[{"role": "user", "content": prompt}])\<close>
    followed by \<^verbatim>\<open>response["choices"][0]["message"]["content"]\<close>;
  \<^item> \<open>get_anchor_hrefs env url\<close> stands for
    \<^verbatim>\<open>requests.get(url, headers={"User-Agent": "Mozilla/5.0"})\<close>, the parse of the
    response by \<^verbatim>\<open>BeautifulSoup(response.text, 'html.parser')\<close> and
    \<^verbatim>\<open>link['href']\<close> for every \<^verbatim>\<open>link\<close> of
    \<^verbatim>\<open>soup.find_all('a', href=True)\<close>, in document order.
\<close>

record 'w env =
  chat_completion :: "string \<Rightarrow> 'w \<Rightarrow> (error + string) \<times> 'w"
  get_anchor_hrefs :: "string \<Rightarrow> 'w \<Rightarrow> (error + string list) \<times> 'w"

section \<open>extract\_claims and verify\_claims\<close>

definition extract_claims :: "'w env \<Rightarrow> string \<Rightarrow> 'w \<Rightarrow> (error + string) \<times> 'w" where
  "extract_claims env transcript w =
     chat_completion env
       (''\<newline>    Given the following transcript:\<newline>    '' @ transcript @
        ''\<newline>    Identify strong claims, especially scientific or technical in nature. '' @
        ''\<newline>    List each claim separately along with any sources mentioned.\<newline>    '') w"

definition verify_claims :: "'w env \<Rightarrow> string \<Rightarrow> 'w \<Rightarrow> (error + string) \<times> 'w" where
  "verify_claims env claims w =
     chat_completion env
       (''\<newline>    Given the following list of claims:\<newline>    '' @ claims @
        ''\<newline>    Compare each claim with established scientific literature and consensus.'' @
        ''\<newline>    Provide an accuracy assessment for each claim along with links to relevant sources.\<newline>    '') w"

section \<open>fetch\_source\_links\<close>

definition search_url :: "string \<Rightarrow> string" where
  "search_url query =
     ''https://www.google.com/search?q='' @ query @
     '' site:cdc.gov OR site:who.int OR site:epa.gov OR site:nejm.org OR site:ncbi.nlm.nih.gov''"

text \<open>The loop over the anchors; \<open>links\<close> is the list built so far.\<close>

fun collect_links :: "string list \<Rightarrow> string list \<Rightarrow> string list" where
  "collect_links [] links = links"
| "collect_links (href # rest) links =
     collect_links rest
       (if py_in ''http'' href \<and> \<not> py_in ''google'' href then links @ [href] else links)"

definition fetch_source_links :: "'w env \<Rightarrow> string \<Rightarrow> 'w \<Rightarrow> (error + string list) \<times> 'w" where
  "fetch_source_links env query w =
     (case get_anchor_hrefs env (search_url query) w of
        (Inl e, w') \<Rightarrow> (Inl e, w')
      | (Inr hrefs, w') \<Rightarrow> (Inr (take 3 (collect_links hrefs [])), w'))"

section \<open>Formatting\<close>

text \<open>
  An f-string formats a list with \<^verbatim>\<open>repr\<close>, which formats every string of the list
  with \<^verbatim>\<open>repr\<close> again: in single quotes, unless the string has a single quote and
  no double quote; the quote, the backslash, tab, newline and carriage return escaped with a
  backslash, every other character that is not printable as \<^verbatim>\<open>\xhh\<close>.
\<close>

definition hex_digit :: "nat \<Rightarrow> char" where
  "hex_digit n = ''0123456789abcdef'' ! (n mod 16)"

definition is_printable :: "char \<Rightarrow> bool" where
  "is_printable c =
     (let n = (of_char c :: nat) in (32 \<le> n \<and> n < 127) \<or> (161 \<le> n \<and> n \<noteq> 173))"

definition repr_char :: "char \<Rightarrow> char \<Rightarrow> string" where
  "repr_char quote c =
     (if c = quote \<or> c = CHR 0x5C then [CHR 0x5C, c]
      else if c = CHR 0x09 then [CHR 0x5C, CHR ''t'']
      else if c = CHR ''\<newline>'' then [CHR 0x5C, CHR ''n'']
      else if c = CHR 0x0D then [CHR 0x5C, CHR ''r'']
      else if is_printable c then [c]
      else [CHR 0x5C, CHR ''x'', hex_digit (of_char c div 16), hex_digit (of_char c)])"

definition py_repr_str :: "string \<Rightarrow> string" where
  "py_repr_str s =
     (let quote = (if CHR 0x27 \<in> set s \<and> CHR 0x22 \<notin> set s then CHR 0x22 else CHR 0x27)
      in quote # concat (map (repr_char quote) s) @ [quote])"

text \<open>\<^verbatim>\<open>sep.join(xs)\<close>\<close>

fun py_join :: "string \<Rightarrow> string list \<Rightarrow> string" where
  "py_join sep [] = []"
| "py_join sep [x] = x"
| "py_join sep (x # y # ys) = x @ sep @ py_join sep (y # ys)"

definition py_repr_list :: "string list \<Rightarrow> string" where
  "py_repr_list xs = ''['' @ py_join '', '' (map py_repr_str xs) @ '']''"

text \<open>\<^verbatim>\<open>d.get(k, default)\<close>\<close>

definition dict_get :: "timestamp_index \<Rightarrow> string \<Rightarrow> string list \<Rightarrow> string list" where
  "dict_get d k dflt = (case map_of d k of None \<Rightarrow> dflt | Some l \<Rightarrow> l)"

section \<open>generate\_final\_report\<close>

text \<open>The loop over the sources of one claim.\<close>

fun append_sources :: "string list \<Rightarrow> string \<Rightarrow> string" where
  "append_sources [] report = report"
| "append_sources (source # rest) report =
     append_sources rest (report @ ''- ['' @ source @ '']('' @ source @ '')\<newline>'')"

text \<open>The body of the loop over the lines of the claims.\<close>

definition report_claim ::
    "'w env \<Rightarrow> timestamp_index \<Rightarrow> string \<Rightarrow> string \<Rightarrow> string \<Rightarrow> 'w \<Rightarrow> (error + string) \<times> 'w" where
  "report_claim env timestamps verified_claims claim report w =
     (if py_strip claim \<noteq> []
      then (case claim_topic claim of
              Inl e \<Rightarrow> (Inl e, w)
            | Inr topic \<Rightarrow>
                (case fetch_source_links env topic w of
                   (Inl e, w') \<Rightarrow> (Inl e, w')
                 | (Inr sources, w') \<Rightarrow>
                     (Inr (append_sources sources
                             (report @
                              ''### '' @ topic @ ''\<newline>'' @
                              ''**Claim:** '' @ claim @ ''\<newline>\<newline>'' @
                              ''**Timestamps:** '' @
                                py_repr_list (dict_get timestamps topic [''N/A'']) @
                                ''\<newline>\<newline>'' @
                              ''**Verification:** '' @ verified_claims @ ''\<newline>\<newline>'' @
                              ''**Relevant Sources:**\<newline>'')
                           @ ''\<newline>---\<newline>''), w')))
      else (Inr report, w))"

fun report_claims ::
    "'w env \<Rightarrow> timestamp_index \<Rightarrow> string \<Rightarrow> string list \<Rightarrow> string \<Rightarrow> 'w \<Rightarrow> (error + string) \<times> 'w" where
  "report_claims env timestamps verified_claims [] report w = (Inr report, w)"
| "report_claims env timestamps verified_claims (claim # rest) report w =
     (case report_claim env timestamps verified_claims claim report w of
        (Inl e, w') \<Rightarrow> (Inl e, w')
      | (Inr report', w') \<Rightarrow> report_claims env timestamps verified_claims rest report' w')"

definition report_header :: string where
  "report_header =
     ''# Video Claim Analysis Report\<newline>\<newline>'' @
     ''## Strong Claims and Their Evaluation\<newline>\<newline>''"

definition generate_final_report :: "'w env \<Rightarrow> string \<Rightarrow> 'w \<Rightarrow> (error + string) \<times> 'w" where
  "generate_final_report env transcript w =
     (case extract_claims env transcript w of
        (Inl e, w1) \<Rightarrow> (Inl e, w1)
      | (Inr claims, w1) \<Rightarrow>
          (case verify_claims env claims w1 of
             (Inl e, w2) \<Rightarrow> (Inl e, w2)
           | (Inr verified_claims, w2) \<Rightarrow>
               (case extract_timestamps transcript claims of
                  Inl e \<Rightarrow> (Inl e, w2)
                | Inr timestamps \<Rightarrow>
                    report_claims env timestamps verified_claims
                      (py_split (CHR ''\<newline>'') claims) report_header w2)))"

section \<open>A scripted outside world\<close>

text \<open>
  An outside world for running the program on concrete inputs: its state counts the calls
  of the language model; the first call answers \<open>claims\<close>, every later call
  \<open>verification\<close>, and every search returns a page with the anchors \<open>hrefs\<close>.
\<close>

definition scripted_env :: "string \<Rightarrow> string \<Rightarrow> string list \<Rightarrow> nat env" where
  "scripted_env claims verification hrefs =
     \<lparr>chat_completion = (\<lambda>prompt n. (Inr (if n = 0 then claims else verification), Suc n)),
      get_anchor_hrefs = (\<lambda>url n. (Inr hrefs, n))\<rparr>"

section \<open>The notions of the specification\<close>

text \<open>
  The specification speaks of a timestamp (two digits, colon, two digits, colon, two
  digits), of a line that contains one, of the first one on a line, of the words of a
  topic that whitespace delimits, and of a word that occurs in a line whatever the case.
  These definitions follow its words; the theorems compare them with the functions above.
\<close>

fun is_timestamp :: "string \<Rightarrow> bool" where
  "is_timestamp [h1, h2, c1, m1, m2, c2, s1, s2] =
     (is_digit h1 \<and> is_digit h2 \<and> c1 = CHR '':'' \<and> is_digit m1 \<and> is_digit m2 \<and>
      c2 = CHR '':'' \<and> is_digit s1 \<and> is_digit s2)"
| "is_timestamp _ = False"

definition spec_contains_timestamp :: "string \<Rightarrow> bool" where
  "spec_contains_timestamp line \<longleftrightarrow> (\<exists>pre m post. line = pre @ m @ post \<and> is_timestamp m)"

definition spec_first_timestamp :: "string \<Rightarrow> string \<Rightarrow> bool" where
  "spec_first_timestamp line m \<longleftrightarrow>
     (\<exists>pre post. line = pre @ m @ post \<and> is_timestamp m \<and>
        (\<forall>pre' m' post'. line = pre' @ m' @ post' \<and> is_timestamp m'
            \<longrightarrow> length pre \<le> length pre'))"

definition spec_topic_word :: "string \<Rightarrow> string \<Rightarrow> bool" where
  "spec_topic_word topic w \<longleftrightarrow>
     w \<noteq> [] \<and> (\<forall>c \<in> set w. \<not> is_space c) \<and>
     (\<exists>pre post. topic = pre @ w @ post \<and>
        (pre = [] \<or> is_space (last pre)) \<and> (post = [] \<or> is_space (hd post)))"

definition spec_ci_substring :: "string \<Rightarrow> string \<Rightarrow> bool" where
  "spec_ci_substring w line \<longleftrightarrow>
     (\<exists>pre s post. line = pre @ s @ post \<and> py_lower s = py_lower w)"

definition spec_line_matches :: "string \<Rightarrow> string \<Rightarrow> bool" where
  "spec_line_matches topic line \<longleftrightarrow>
     spec_contains_timestamp line \<and>
     (\<exists>w. spec_topic_word topic w \<and> spec_ci_substring w line)"

text \<open>What a line of the transcript contributes to the list of a topic.\<close>

definition spec_contribution :: "string \<Rightarrow> string \<Rightarrow> string list \<Rightarrow> bool" where
  "spec_contribution topic line ts \<longleftrightarrow>
     (if spec_line_matches topic line
      then (\<exists>m. ts = [m] \<and> spec_first_timestamp line m)
      else ts = [])"

section \<open>The loops in closed form\<close>

text \<open>
  The text before the first colon, the timestamps that one line of the transcript adds
  to the list of a keyword, and what one line of the claims does to the dictionary.
\<close>

definition topic_text :: "string \<Rightarrow> string" where
  "topic_text claim = takeWhile (\<lambda>c. c \<noteq> CHR '':'') claim"

definition line_hit :: "string \<Rightarrow> string \<Rightarrow> string list" where
  "line_hit keyword line =
     (if any_word_in keyword line
      then (case re_search timestamp_pattern line of Some m \<Rightarrow> [m] | None \<Rightarrow> [])
      else [])"

definition hits :: "string \<Rightarrow> string list \<Rightarrow> string list" where
  "hits keyword lines = concat (map (line_hit keyword) lines)"

definition claim_step :: "string list \<Rightarrow> string \<Rightarrow> timestamp_index \<Rightarrow> timestamp_index" where
  "claim_step lines claim d = AList.update (topic_text claim) (hits (topic_text claim) lines) d"

section \<open>Strings: the functions and the notions of the specification\<close>

lemma py_split_nonempty: "py_split sep s \<noteq> []"
  by (induction s) (auto split: list.splits)

lemma py_split_no_sep: "sep \<notin> set s \<Longrightarrow> py_split sep s = [s]"
  by (induction s) auto

lemma hd_py_split: "hd (py_split sep s) = takeWhile (\<lambda>c. c \<noteq> sep) s"
  by (induction s) (auto split: list.splits simp: py_split_nonempty)

lemma py_split_fields_no_sep: "w \<in> set (py_split sep s) \<Longrightarrow> sep \<notin> set w"
  by (induction s arbitrary: w) (auto split: list.splits if_splits)

lemma claim_topic_eq: "claim_topic claim = Inr (topic_text claim)"
  using hd_py_split [of "CHR '':''" claim] py_split_nonempty [of "CHR '':''" claim]
  by (auto simp: claim_topic_def topic_text_def split: list.splits)

lemma py_strip_empty_iff: "py_strip s = [] \<longleftrightarrow> (\<forall>c \<in> set s. is_space c)"
proof
  assume "py_strip s = []"
  then have "dropWhile is_space (rev (dropWhile is_space s)) = []"
    unfolding py_strip_def by simp
  then have all: "\<forall>c \<in> set (dropWhile is_space s). is_space c"
    unfolding dropWhile_eq_Nil_conv by simp
  have "dropWhile is_space s = []"
  proof (rule ccontr)
    assume ne: "dropWhile is_space s \<noteq> []"
    then have "\<not> is_space (hd (dropWhile is_space s))" by (rule hd_dropWhile)
    moreover from ne have "hd (dropWhile is_space s) \<in> set (dropWhile is_space s)" by simp
    ultimately show False using all by blast
  qed
  then show "\<forall>c \<in> set s. is_space c" unfolding dropWhile_eq_Nil_conv .
next
  assume "\<forall>c \<in> set s. is_space c"
  then have "dropWhile is_space s = []" unfolding dropWhile_eq_Nil_conv .
  then show "py_strip s = []" by (simp only: py_strip_def rev.simps dropWhile.simps)
qed

lemma word_of_solid:
  assumes "\<forall>c \<in> set cur. \<not> is_space c"
  shows "spec_topic_word cur w \<longleftrightarrow> w = cur \<and> cur \<noteq> []"
proof
  assume "spec_topic_word cur w"
  then obtain pre post where w: "w \<noteq> []" and eq: "cur = pre @ w @ post"
    and l: "pre = [] \<or> is_space (last pre)" and r: "post = [] \<or> is_space (hd post)"
    by (auto simp: spec_topic_word_def)
  have "pre = []"
  proof (rule ccontr)
    assume "pre \<noteq> []"
    with l eq have "is_space (last pre)" "last pre \<in> set cur" by auto
    with assms show False by blast
  qed
  moreover have "post = []"
  proof (rule ccontr)
    assume "post \<noteq> []"
    with r eq have "is_space (hd post)" "hd post \<in> set cur" by auto
    with assms show False by blast
  qed
  ultimately show "w = cur \<and> cur \<noteq> []" using eq w by simp
next
  assume "w = cur \<and> cur \<noteq> []"
  then have "cur = [] @ w @ []" "w \<noteq> []" by auto
  with assms show "spec_topic_word cur w"
    unfolding spec_topic_word_def by (metis \<open>w = cur \<and> cur \<noteq> []\<close>)
qed

lemma word_of_split_at_space:
  assumes "is_space c"
  shows "spec_topic_word (a @ c # b) w \<longleftrightarrow> spec_topic_word a w \<or> spec_topic_word b w"
proof
  assume "spec_topic_word (a @ c # b) w"
  then obtain pre post where w: "w \<noteq> []" and ns: "\<forall>c \<in> set w. \<not> is_space c"
    and eq: "a @ c # b = pre @ w @ post"
    and l: "pre = [] \<or> is_space (last pre)" and r: "post = [] \<or> is_space (hd post)"
    by (auto simp: spec_topic_word_def)
  from eq obtain us where
    "a = pre @ us \<and> us @ c # b = w @ post \<or> a @ us = pre \<and> c # b = us @ w @ post"
    unfolding append_eq_append_conv2 [of a "c # b" pre "w @ post"] by blast
  then consider (left) us where "a = pre @ us" "us @ c # b = w @ post"
    | (right) us where "a @ us = pre" "c # b = us @ w @ post" "us \<noteq> []"
    by (cases "us = []") auto
  then show "spec_topic_word a w \<or> spec_topic_word b w"
  proof cases
    case left
    from left(2) obtain vs where
      "us = w @ vs \<and> vs @ c # b = post \<or> us @ vs = w \<and> c # b = vs @ post"
      unfolding append_eq_append_conv2 [of us "c # b" w post] by blast
    then consider (l2) vs where "us = w @ vs" "vs @ c # b = post"
      | (r2) vs where "us @ vs = w" "c # b = vs @ post" "vs \<noteq> []"
      by (cases "vs = []") auto
    then show ?thesis
    proof cases
      case l2
      have "vs = [] \<or> is_space (hd vs)"
      proof (cases vs)
        case Nil then show ?thesis by simp
      next
        case (Cons v vs')
        with l2 r show ?thesis by auto
      qed
      with left l2 l w ns have "spec_topic_word a w"
        unfolding spec_topic_word_def by auto
      then show ?thesis ..
    next
      case r2
      then obtain vs' where "vs = c # vs'" by (cases vs) auto
      with r2 have "c \<in> set w" by auto
      with ns assms show ?thesis by blast
    qed
  next
    case right
    then obtain us' where us: "us = c # us'" "b = us' @ w @ post" by (cases us) auto
    have "us' = [] \<or> is_space (last us')"
    proof (cases "us' = []")
      case True then show ?thesis by simp
    next
      case False
      with right us have "last pre = last us'" by auto
      moreover from right us have "pre \<noteq> []" by auto
      ultimately show ?thesis using l by simp
    qed
    with us r w ns have "spec_topic_word b w"
      unfolding spec_topic_word_def by auto
    then show ?thesis ..
  qed
next
  assume "spec_topic_word a w \<or> spec_topic_word b w"
  then show "spec_topic_word (a @ c # b) w"
  proof
    assume "spec_topic_word a w"
    then obtain pre post where w: "w \<noteq> []" and ns: "\<forall>c \<in> set w. \<not> is_space c"
      and eq: "a = pre @ w @ post"
      and l: "pre = [] \<or> is_space (last pre)" and r: "post = [] \<or> is_space (hd post)"
      by (auto simp: spec_topic_word_def)
    have "a @ c # b = pre @ w @ (post @ c # b)" using eq by simp
    moreover have "is_space (hd (post @ c # b))" using r assms by (cases post) auto
    ultimately show ?thesis using w ns l unfolding spec_topic_word_def by blast
  next
    assume "spec_topic_word b w"
    then obtain pre post where w: "w \<noteq> []" and ns: "\<forall>c \<in> set w. \<not> is_space c"
      and eq: "b = pre @ w @ post"
      and l: "pre = [] \<or> is_space (last pre)" and r: "post = [] \<or> is_space (hd post)"
      by (auto simp: spec_topic_word_def)
    have "a @ c # b = (a @ c # pre) @ w @ post" using eq by simp
    moreover have "is_space (last (a @ c # pre))" using l assms by (cases "pre = []") auto
    ultimately show ?thesis using w ns r unfolding spec_topic_word_def by blast
  qed
qed

lemma split_words_iff:
  "\<forall>c \<in> set cur. \<not> is_space c \<Longrightarrow>
   w \<in> set (split_words cur s) \<longleftrightarrow> spec_topic_word (cur @ s) w"
proof (induction s arbitrary: cur)
  case Nil
  then show ?case by (auto simp: word_of_solid)
next
  case (Cons c cs)
  show ?case
  proof (cases "is_space c")
    case True
    have "w \<in> set (split_words [] cs) \<longleftrightarrow> spec_topic_word cs w"
      using Cons.IH [of "[]"] by simp
    with True Cons.prems show ?thesis
      by (auto simp: word_of_split_at_space word_of_solid)
  next
    case False
    with Cons.prems have "\<forall>x \<in> set (cur @ [c]). \<not> is_space x" by auto
    from Cons.IH [OF this] False show ?thesis by simp
  qed
qed

lemma py_split_ws_iff: "w \<in> set (py_split_ws topic) \<longleftrightarrow> spec_topic_word topic w"
  using split_words_iff [of "[]" w topic] by (simp add: py_split_ws_def)

lemma startswith_iff: "startswith s sub \<longleftrightarrow> (\<exists>post. s = sub @ post)"
  by (induction s sub rule: startswith.induct) auto

lemma py_in_iff: "py_in sub s \<longleftrightarrow> (\<exists>pre post. s = pre @ sub @ post)"
proof (induction s)
  case Nil
  then show ?case by auto
next
  case (Cons c cs)
  show ?case
  proof
    assume "py_in sub (c # cs)"
    then consider "startswith (c # cs) sub" | "py_in sub cs" by auto
    then show "\<exists>pre post. c # cs = pre @ sub @ post"
    proof cases
      case 1
      then obtain post where "c # cs = [] @ sub @ post" by (auto simp: startswith_iff)
      then show ?thesis by blast
    next
      case 2
      with Cons obtain pre post where "cs = pre @ sub @ post" by blast
      then have "c # cs = (c # pre) @ sub @ post" by simp
      then show ?thesis by blast
    qed
  next
    assume "\<exists>pre post. c # cs = pre @ sub @ post"
    then obtain pre post where eq: "c # cs = pre @ sub @ post" by blast
    show "py_in sub (c # cs)"
    proof (cases pre)
      case Nil
      with eq have "startswith (c # cs) sub" unfolding startswith_iff by auto
      then show ?thesis by simp
    next
      case (Cons p ps)
      with eq have "cs = ps @ sub @ post" by simp
      with Cons.IH have "py_in sub cs" by blast
      then show ?thesis by simp
    qed
  qed
qed

lemma match_prefix_iff:
  "match_prefix pat s = Some m \<longleftrightarrow> (\<exists>post. s = m @ post \<and> list_all2 atom_matches pat m)"
proof (induction pat s arbitrary: m rule: match_prefix.induct)
  case (1 s)
  then show ?case by auto
next
  case (2 a as)
  then show ?case by (auto simp: list_all2_Cons1)
next
  case (3 a as c cs)
  then show ?case by (cases m) (auto simp: list_all2_Cons1)
qed

lemma match_prefix_None_iff:
  "match_prefix pat s = None \<longleftrightarrow> \<not> (\<exists>m post. s = m @ post \<and> list_all2 atom_matches pat m)"
  using match_prefix_iff [of pat s] by (cases "match_prefix pat s") auto

lemma re_search_None_iff:
  "re_search pat s = None \<longleftrightarrow>
     \<not> (\<exists>pre m post. s = pre @ m @ post \<and> list_all2 atom_matches pat m)"
proof (induction s)
  case Nil
  then show ?case by (auto simp: match_prefix_None_iff)
next
  case (Cons c cs)
  show ?case
  proof
    assume n: "re_search pat (c # cs) = None"
    then have a: "match_prefix pat (c # cs) = None" and b: "re_search pat cs = None"
      by (auto split: option.splits)
    show "\<not> (\<exists>pre m post. c # cs = pre @ m @ post \<and> list_all2 atom_matches pat m)"
    proof
      assume "\<exists>pre m post. c # cs = pre @ m @ post \<and> list_all2 atom_matches pat m"
      then obtain pre m post where eq: "c # cs = pre @ m @ post" and m: "list_all2 atom_matches pat m"
        by blast
      show False
      proof (cases pre)
        case Nil
        with eq m a show False by (auto simp: match_prefix_None_iff)
      next
        case (Cons p ps)
        with eq have "cs = ps @ m @ post" by simp
        with m b Cons.IH show False by blast
      qed
    qed
  next
    assume n: "\<not> (\<exists>pre m post. c # cs = pre @ m @ post \<and> list_all2 atom_matches pat m)"
    have a: "match_prefix pat (c # cs) = None"
    proof (rule ccontr)
      assume "match_prefix pat (c # cs) \<noteq> None"
      then obtain m where "match_prefix pat (c # cs) = Some m" by auto
      then obtain post where "c # cs = [] @ m @ post" "list_all2 atom_matches pat m"
        by (auto simp: match_prefix_iff)
      with n show False by blast
    qed
    have b: "re_search pat cs = None"
    proof (rule ccontr)
      assume "re_search pat cs \<noteq> None"
      with Cons.IH obtain pre m post where "cs = pre @ m @ post" "list_all2 atom_matches pat m"
        by blast
      then have "c # cs = (c # pre) @ m @ post" by simp
      with n \<open>list_all2 atom_matches pat m\<close> show False by blast
    qed
    from a b show "re_search pat (c # cs) = None" by simp
  qed
qed

lemma re_search_Some_D:
  "re_search pat s = Some m \<Longrightarrow>
     \<exists>pre post. s = pre @ m @ post \<and> list_all2 atom_matches pat m \<and>
       (\<forall>pre' m' post'. s = pre' @ m' @ post' \<and> list_all2 atom_matches pat m'
           \<longrightarrow> length pre \<le> length pre')"
proof (induction s)
  case Nil
  then have "[] = [] @ m @ []" "list_all2 atom_matches pat m" by (auto simp: match_prefix_iff)
  then show ?case by (metis le0 list.size(3))
next
  case (Cons c cs)
  show ?case
  proof (cases "match_prefix pat (c # cs)")
    case (Some m')
    with Cons.prems have "match_prefix pat (c # cs) = Some m" by simp
    then obtain post where "c # cs = [] @ m @ post" "list_all2 atom_matches pat m"
      by (auto simp: match_prefix_iff)
    then show ?thesis by (metis le0 list.size(3))
  next
    case None
    with Cons.prems have "re_search pat cs = Some m" by simp
    with Cons.IH obtain pre post where eq: "cs = pre @ m @ post" and m: "list_all2 atom_matches pat m"
      and least: "\<forall>pre' m' post'. cs = pre' @ m' @ post' \<and> list_all2 atom_matches pat m'
           \<longrightarrow> length pre \<le> length pre'" by blast
    have "length (c # pre) \<le> length pre'"
      if "c # cs = pre' @ m' @ post'" "list_all2 atom_matches pat m'" for pre' m' post'
    proof (cases pre')
      case Nil
      with that None show ?thesis by (auto simp: match_prefix_None_iff)
    next
      case (Cons p ps)
      with that have "cs = ps @ m' @ post'" by simp
      with least that have "length pre \<le> length ps" by blast
      with Cons show ?thesis by simp
    qed
    moreover from eq have "c # cs = (c # pre) @ m @ post" by simp
    ultimately show ?thesis using m by blast
  qed
qed

lemma matches_timestamp_pattern:
  "list_all2 atom_matches timestamp_pattern m \<longleftrightarrow> is_timestamp m"
  apply (simp add: timestamp_pattern_def list_all2_Cons1)
  apply (rule iffI)
   apply (auto)[1]
  apply (erule is_timestamp.elims)
  apply auto
  done

section \<open>The loops of extract\_timestamps\<close>

lemma scan_transcript_eq:
  "map_of d k = Some l \<Longrightarrow>
   scan_transcript k lines d = Inr (AList.update k (l @ hits k lines) d)"
proof (induction lines arbitrary: d l)
  case Nil
  then show ?case by (simp add: hits_def update_triv)
next
  case (Cons line rest)
  show ?case
  proof (cases "line_hit k line")
    case Nil
    then have "scan_transcript k (line # rest) d = scan_transcript k rest d"
      by (auto simp: line_hit_def split: if_splits option.splits)
    with Cons Nil show ?thesis by (simp add: hits_def)
  next
    case (Cons m ms)
    then have m: "any_word_in k line" "re_search timestamp_pattern line = Some m" "ms = []"
      by (auto simp: line_hit_def split: if_splits option.splits)
    have "map_of (AList.update k (l @ [m]) d) k = Some (l @ [m])"
      by (simp add: update_conv')
    from Cons.IH [OF this] m Cons.prems Cons show ?thesis
      by (simp add: dict_append_def hits_def)
  qed
qed

lemma scan_claims_eq:
  "scan_claims transcript claims d =
     Inr (fold (claim_step (py_split (CHR ''\<newline>'') transcript)) claims d)"
proof (induction claims arbitrary: d)
  case Nil
  show ?case by simp
next
  case (Cons claim rest)
  have "map_of (AList.update (topic_text claim) [] d) (topic_text claim) = Some []"
    by (simp add: update_conv')
  from scan_transcript_eq [OF this] Cons show ?case
    by (simp add: claim_topic_eq claim_step_def)
qed

lemma map_of_fold_claim_step:
  "map_of (fold (claim_step lines) claims d) k =
     (if k \<in> topic_text ` set claims then Some (hits k lines) else map_of d k)"
  by (induction claims arbitrary: d rule: rev_induct) (auto simp: claim_step_def update_conv')

lemma keys_fold_claim_step:
  "fst ` set (fold (claim_step lines) claims d) = topic_text ` set claims \<union> fst ` set d"
  by (induction claims arbitrary: d) (auto simp: claim_step_def dom_update)

lemma extract_timestamps_eq:
  "extract_timestamps transcript claims =
     Inr (fold (claim_step (py_split (CHR ''\<newline>'') transcript))
            (py_split (CHR ''\<newline>'') claims) [])"
  by (simp add: extract_timestamps_def scan_claims_eq)

section \<open>The functions against the notions of the specification\<close>

lemma spec_ci_substring_iff: "py_in (py_lower w) (py_lower line) \<longleftrightarrow> spec_ci_substring w line"
proof
  assume "py_in (py_lower w) (py_lower line)"
  then obtain pre post where "map lower_char line = pre @ map lower_char w @ post"
    by (auto simp: py_in_iff py_lower_def)
  then obtain us vs where l1: "line = us @ vs" and "pre = map lower_char us"
    and "map lower_char w @ post = map lower_char vs"
    by (auto simp: map_eq_append_conv)
  then obtain s ws where "vs = s @ ws" and "map lower_char w = map lower_char s"
    by (metis map_eq_append_conv)
  with l1 have "line = us @ s @ ws" "py_lower s = py_lower w" by (auto simp: py_lower_def)
  then show "spec_ci_substring w line" unfolding spec_ci_substring_def by blast
next
  assume "spec_ci_substring w line"
  then obtain pre s post where "line = pre @ s @ post" "py_lower s = py_lower w"
    unfolding spec_ci_substring_def by blast
  then have "py_lower line = py_lower pre @ py_lower w @ py_lower post"
    by (simp add: py_lower_def)
  then show "py_in (py_lower w) (py_lower line)" unfolding py_in_iff by blast
qed

lemma any_word_in_iff:
  "any_word_in topic line \<longleftrightarrow> (\<exists>w. spec_topic_word topic w \<and> spec_ci_substring w line)"
  by (auto simp: any_word_in_def list_ex_iff py_split_ws_iff spec_ci_substring_iff)

lemma re_search_spec_first:
  "re_search timestamp_pattern line = Some m \<Longrightarrow> spec_first_timestamp line m"
  using re_search_Some_D [of timestamp_pattern line m]
  by (simp add: spec_first_timestamp_def matches_timestamp_pattern)

lemma re_search_spec_contains:
  "re_search timestamp_pattern line \<noteq> None \<longleftrightarrow> spec_contains_timestamp line"
  by (simp add: re_search_None_iff spec_contains_timestamp_def matches_timestamp_pattern)

lemma line_hit_contribution: "spec_contribution topic line (line_hit topic line)"
proof (cases "spec_line_matches topic line")
  case True
  then have w: "any_word_in topic line"
    unfolding spec_line_matches_def any_word_in_iff by blast
  from True have "re_search timestamp_pattern line \<noteq> None"
    unfolding spec_line_matches_def re_search_spec_contains by blast
  then obtain m where m: "re_search timestamp_pattern line = Some m" by auto
  then have "spec_first_timestamp line m" by (rule re_search_spec_first)
  with True w m show ?thesis by (simp add: spec_contribution_def line_hit_def)
next
  case False
  then have "\<not> any_word_in topic line \<or> re_search timestamp_pattern line = None"
    unfolding spec_line_matches_def any_word_in_iff
    using re_search_spec_contains [of line] by blast
  with False show ?thesis by (auto simp: spec_contribution_def line_hit_def)
qed

lemma hits_contributions:
  "list_all2 (spec_contribution topic) lines (map (line_hit topic) lines)"
  by (simp add: list_all2_map2 list_all2_same line_hit_contribution)

lemma extract_timestamps_lookup:
  assumes "claim \<in> set (py_split (CHR ''\<newline>'') claims)"
    and "claim_topic claim = Inr topic"
  shows "\<exists>idx. extract_timestamps transcript claims = Inr idx \<and>
           map_of idx topic = Some (hits topic (py_split (CHR ''\<newline>'') transcript))"
proof -
  from assms(2) have "topic = topic_text claim" by (simp add: claim_topic_eq)
  with assms(1) have "topic \<in> topic_text ` set (py_split (CHR ''\<newline>'') claims)" by blast
  then show ?thesis by (simp add: extract_timestamps_eq map_of_fold_claim_step)
qed

lemma extract_timestamps_keys:
  "\<exists>idx. extract_timestamps transcript claims = Inr idx \<and>
     fst ` set idx = topic_text ` set (py_split (CHR ''\<newline>'') claims) \<and>
     distinct (map fst idx)"
proof -
  have "distinct (map fst (fold (claim_step lines) cs d))" if "distinct (map fst d)"
    for lines cs and d :: timestamp_index
    using that by (induction cs arbitrary: d) (auto simp: claim_step_def distinct_update)
  then show ?thesis
    by (simp add: extract_timestamps_eq keys_fold_claim_step)
qed

lemma hits_no_words: "py_split_ws keyword = [] \<Longrightarrow> hits keyword lines = []"
  by (simp add: hits_def line_hit_def any_word_in_def)

lemma set_update_subset: "set (AList.update k v al) \<subseteq> insert (k, v) (set al)"
  by (induction al) auto

lemma is_timestamp_length: "is_timestamp m \<Longrightarrow> length m = 8"
  by (induction m rule: is_timestamp.induct) simp_all

lemma hits_are_timestamps: "m \<in> set (hits keyword lines) \<Longrightarrow> is_timestamp m"
proof -
  assume "m \<in> set (hits keyword lines)"
  then obtain line where "m \<in> set (line_hit keyword line)" by (auto simp: hits_def)
  then have "re_search timestamp_pattern line = Some m"
    by (cases "any_word_in keyword line"; cases "re_search timestamp_pattern line")
       (simp_all add: line_hit_def)
  then have "spec_first_timestamp line m" by (simp add: re_search_spec_first)
  then show ?thesis by (auto simp: spec_first_timestamp_def)
qed

lemma fold_claim_step_values:
  "(k, l) \<in> set (fold (claim_step lines) cs d) \<Longrightarrow> (k, l) \<in> set d \<or> l = hits k lines"
proof (induction cs arbitrary: d)
  case Nil
  then show ?case by simp
next
  case (Cons c cs)
  then have "(k, l) \<in> set (claim_step lines c d) \<or> l = hits k lines" by simp
  then show ?case using set_update_subset [of "topic_text c" "hits (topic_text c) lines" d]
    by (auto simp: claim_step_def)
qed

section \<open>fetch\_source\_links and the report\<close>

lemma collect_links_eq:
  "collect_links hrefs links =
     links @ filter (\<lambda>h. py_in ''http'' h \<and> \<not> py_in ''google'' h) hrefs"
  by (induction hrefs arbitrary: links) auto

lemma py_in_sublist: "py_in sub s \<longleftrightarrow> sublist sub s"
  by (simp add: py_in_iff sublist_def)

lemma report_claim_blank:
  "\<forall>c \<in> set claim. is_space c \<Longrightarrow>
   report_claim env timestamps verified_claims claim report w = (Inr report, w)"
  by (simp add: report_claim_def py_strip_empty_iff)

lemma report_claims_filter:
  "report_claims env timestamps verified_claims lines report w =
   report_claims env timestamps verified_claims
     (filter (\<lambda>claim. \<not> (\<forall>c \<in> set claim. is_space c)) lines) report w"
proof (induction lines arbitrary: report w)
  case Nil
  show ?case by simp
next
  case (Cons claim rest)
  show ?case
  proof (cases "\<forall>c \<in> set claim. is_space c")
    case True
    then show ?thesis using Cons [of report w] by (simp add: report_claim_blank)
  next
    case False
    then show ?thesis using Cons by (auto split: prod.splits sum.splits)
  qed
qed

lemma timestamps_get_never_default:
  assumes "extract_timestamps transcript claims = Inr timestamps"
    and "claim \<in> set (py_split (CHR ''\<newline>'') claims)"
    and "claim_topic claim = Inr topic"
  shows "dict_get timestamps topic dflt = hits topic (py_split (CHR ''\<newline>'') transcript)"
  using extract_timestamps_lookup [OF assms(2,3), of transcript] assms(1)
  by (auto simp: dict_get_def)

section \<open>The claims\<close>

text \<open>
  C1. For every line of the claims and its topic, extract\_timestamps returns an index
  whose list for the topic is the concatenation, in the order of the lines of the
  transcript, of what each line contributes: exactly one timestamp, the first one on the
  line, if the line contains a timestamp and some word of the topic that whitespace
  delimits occurs in the line whatever the case, and nothing otherwise.
\<close>

theorem extract_timestamps_contributions:
  assumes "claim \<in> set (py_split (CHR ''\<newline>'') claims)"
    and "claim_topic claim = Inr topic"
  shows "\<exists>idx cs. extract_timestamps transcript claims = Inr idx \<and>
           map_of idx topic = Some (concat cs) \<and>
           list_all2 (spec_contribution topic) (py_split (CHR ''\<newline>'') transcript) cs"
proof -
  from extract_timestamps_lookup [OF assms] obtain idx where
    "extract_timestamps transcript claims = Inr idx"
    "map_of idx topic = Some (hits topic (py_split (CHR ''\<newline>'') transcript))" by blast
  then show ?thesis unfolding hits_def using hits_contributions by blast
qed

theorem extract_timestamps_contributions_witness:
  "\<exists>idx cs. extract_timestamps
       ''00:01:15 Vaccines cause autism, according to some.\<newline>00:02:30 This has been studied.''
       ''Vaccines: cause autism claim'' = Inr idx \<and>
     map_of idx ''Vaccines'' = Some (concat cs) \<and>
     list_all2 (spec_contribution ''Vaccines'')
       (py_split (CHR ''\<newline>'')
          ''00:01:15 Vaccines cause autism, according to some.\<newline>00:02:30 This has been studied.'')
       cs"
proof -
  have 1: "''Vaccines: cause autism claim'' \<in> set (py_split (CHR ''\<newline>'') ''Vaccines: cause autism claim'')"
    by code_simp
  have 2: "claim_topic ''Vaccines: cause autism claim'' = Inr ''Vaccines''"
    by code_simp
  from extract_timestamps_contributions [OF 1 2] show ?thesis .
qed

text \<open>
  C2. Whatever anchors the page of the search engine has, fetch\_source\_links returns a
  list of at most 3 entries, each of which contains \<open>http\<close> and none of which contains
  \<open>google\<close>, and the list is a prefix of the qualifying hrefs in document order; for
  the four anchors of scenario 3 it is the list of the second and the third.
\<close>

theorem fetch_source_links_top3:
  assumes "get_anchor_hrefs env (search_url query) w = (Inr hrefs, w')"
  shows "\<exists>links. fetch_source_links env query w = (Inr links, w') \<and>
           length links \<le> 3 \<and>
           (\<forall>l \<in> set links. sublist ''http'' l \<and> \<not> sublist ''google'' l) \<and>
           prefix links (filter (\<lambda>h. sublist ''http'' h \<and> \<not> sublist ''google'' h) hrefs) \<and>
           (hrefs = [''https://www.google.com/x'', ''https://cdc.gov/y'',
                     ''https://who.int/z'', ''/relative'']
              \<longrightarrow> links = [''https://cdc.gov/y'', ''https://who.int/z''])"
proof -
  let ?q = "\<lambda>h. sublist ''http'' h \<and> \<not> sublist ''google'' h"
  let ?links = "take 3 (filter ?q hrefs)"
  have run: "fetch_source_links env query w = (Inr ?links, w')"
    using assms by (simp add: fetch_source_links_def collect_links_eq py_in_sublist)
  have len: "length ?links \<le> 3" by simp
  have sel: "\<forall>l \<in> set ?links. ?q l"
  proof
    fix l assume "l \<in> set ?links"
    then have "l \<in> set (filter ?q hrefs)" by (rule in_set_takeD)
    then show "?q l" by simp
  qed
  have pre: "prefix ?links (filter ?q hrefs)" by (rule take_is_prefix)
  have ex: "?links = [''https://cdc.gov/y'', ''https://who.int/z'']"
    if "hrefs = [''https://www.google.com/x'', ''https://cdc.gov/y'',
                 ''https://who.int/z'', ''/relative'']"
  proof -
    have "take 3 (collect_links [''https://www.google.com/x'', ''https://cdc.gov/y'',
                 ''https://who.int/z'', ''/relative''] []) = [''https://cdc.gov/y'', ''https://who.int/z'']"
      by code_simp
    with that show ?thesis by (simp only: collect_links_eq py_in_sublist append_Nil)
  qed
  from run len sel pre ex show ?thesis by blast
qed

theorem fetch_source_links_top3_witness:
  "\<exists>links. fetch_source_links
       (scripted_env [] []
          [''https://www.google.com/x'', ''https://cdc.gov/y'', ''https://who.int/z'', ''/relative''])
       ''vaccines'' 0 = (Inr links, 0) \<and>
     length links \<le> 3 \<and>
     prefix links (filter (\<lambda>h. sublist ''http'' h \<and> \<not> sublist ''google'' h)
        [''https://www.google.com/x'', ''https://cdc.gov/y'', ''https://who.int/z'', ''/relative'']) \<and>
     links = [''https://cdc.gov/y'', ''https://who.int/z'']"
proof -
  have "get_anchor_hrefs
          (scripted_env [] []
             [''https://www.google.com/x'', ''https://cdc.gov/y'', ''https://who.int/z'', ''/relative''])
          (search_url ''vaccines'') 0
        = (Inr [''https://www.google.com/x'', ''https://cdc.gov/y'', ''https://who.int/z'',
                ''/relative''], 0)"
    by (simp add: scripted_env_def)
  from fetch_source_links_top3 [OF this] show ?thesis by blast
qed

text \<open>
  C3, as the specification states it, fails: the topic is not trimmed. The claim line
  \<open>" a"\<close> has no colon, its topic is \<open>" a"\<close>, with the leading space, and that is the
  key of the index, while the trimmed line is \<open>"a"\<close>.
\<close>

theorem topic_trimmed_counterexample:
  "CHR '':'' \<notin> set '' a'' \<and>
   claim_topic '' a'' = Inr '' a'' \<and>
   py_strip '' a'' = ''a'' \<and>
   claim_topic '' a'' \<noteq> Inr (py_strip '' a'') \<and>
   extract_timestamps ''00:00:01 a'' '' a'' = Inr [('' a'', [''00:00:01''])]"
  by code_simp

text \<open>
  C3, amended. For every claim line that contains no colon, the topic is the whole claim
  line as it is, leading and trailing whitespace kept; and when the line is a line of the
  claims, it is a key of the index that extract\_timestamps returns.
\<close>

theorem topic_without_colon:
  assumes "CHR '':'' \<notin> set claim"
  shows "claim_topic claim = Inr claim \<and>
         (claim \<in> set (py_split (CHR ''\<newline>'') claims) \<longrightarrow>
            (\<exists>idx. extract_timestamps transcript claims = Inr idx \<and> claim \<in> fst ` set idx))"
proof -
  from assms have t: "topic_text claim = claim"
    unfolding topic_text_def by (auto simp: takeWhile_eq_all_conv)
  then have "claim_topic claim = Inr claim" by (simp add: claim_topic_eq)
  moreover obtain idx where "extract_timestamps transcript claims = Inr idx"
    "fst ` set idx = topic_text ` set (py_split (CHR ''\<newline>'') claims)"
    using extract_timestamps_keys by blast
  ultimately show ?thesis using t by (metis image_eqI)
qed

theorem topic_without_colon_witness:
  "claim_topic ''  Global warming is accelerating '' = Inr ''  Global warming is accelerating '' \<and>
   (\<exists>idx. extract_timestamps ''00:00:01 warming'' ''  Global warming is accelerating '' = Inr idx \<and>
      ''  Global warming is accelerating '' \<in> fst ` set idx)"
proof -
  have 1: "CHR '':'' \<notin> set ''  Global warming is accelerating ''" by simp
  have 2: "''  Global warming is accelerating ''
             \<in> set (py_split (CHR ''\<newline>'') ''  Global warming is accelerating '')"
    by code_simp
  from topic_without_colon [OF 1, of "''  Global warming is accelerating ''" "''00:00:01 warming''"] 2
  show ?thesis by blast
qed

text \<open>
  C4. The code at an input where the topic has no timestamp: the transcript has no word
  of the topic \<open>Vaccines\<close>, the index maps the topic to the empty list, and the section
  of the report shows \<open>[]\<close> in the field of the timestamps, not the placeholder
  \<open>['N/A']\<close>, which \<open>dict_get\<close> would return for a key that is missing.
\<close>

theorem empty_timestamps_rendered_as_empty_list:
  "generate_final_report
     (scripted_env ''Vaccines: cause autism claim'' ''Not supported.'' [''https://cdc.gov/y''])
     ''00:02:30 This has been studied.'' 0
   = (Inr (''# Video Claim Analysis Report\<newline>\<newline>'' @
           ''## Strong Claims and Their Evaluation\<newline>\<newline>'' @
           ''### Vaccines\<newline>'' @
           ''**Claim:** Vaccines: cause autism claim\<newline>\<newline>'' @
           ''**Timestamps:** []\<newline>\<newline>'' @
           ''**Verification:** Not supported.\<newline>\<newline>'' @
           ''**Relevant Sources:**\<newline>'' @
           ''- [https://cdc.gov/y](https://cdc.gov/y)\<newline>'' @
           ''\<newline>---\<newline>''), 2) \<and>
   extract_timestamps ''00:02:30 This has been studied.'' ''Vaccines: cause autism claim''
     = Inr [(''Vaccines'', [])] \<and>
   py_repr_list [''N/A''] = [CHR ''['', CHR 0x27, CHR ''N'', CHR ''/'', CHR ''A'', CHR 0x27, CHR '']'']"
  by code_simp

text \<open>
  C5. The code at an input with an empty claim line: on the claims \<open>a:b\<close> followed by
  a newline the lines are \<open>a:b\<close> and the empty line, and the index that
  extract\_timestamps returns has a key for the empty line, the empty string with an
  empty list, besides the topic \<open>a\<close> of the only line that is not empty.
\<close>

theorem empty_claim_line_adds_key:
  "extract_timestamps ''00:00:01 a'' ''a:b\<newline>'' = Inr [(''a'', [''00:00:01'']), ('''', [])] \<and>
   py_split (CHR ''\<newline>'') ''a:b\<newline>'' = [''a:b'', ''''] \<and>
   claim_topic ''a:b'' = Inr ''a'' \<and>
   claim_topic '''' = Inr ''''"
  by code_simp

text \<open>
  C6. On the transcript of scenario 1 and the claims \<open>Vaccines: cause autism claim\<close>,
  extract\_timestamps returns the index with the one key \<open>Vaccines\<close>, mapped to the one
  timestamp \<open>00:01:15\<close>: the topic is \<open>Vaccines\<close>, the first line has the word of the
  topic and its first timestamp is \<open>00:01:15\<close>, the second line has no word of the topic.
\<close>

theorem scenario_vaccines:
  "extract_timestamps
     ''00:01:15 Vaccines cause autism, according to some.\<newline>00:02:30 This has been studied.''
     ''Vaccines: cause autism claim''
     = Inr [(''Vaccines'', [''00:01:15''])] \<and>
   claim_topic ''Vaccines: cause autism claim'' = Inr ''Vaccines'' \<and>
   py_split (CHR ''\<newline>'')
     ''00:01:15 Vaccines cause autism, according to some.\<newline>00:02:30 This has been studied.''
     = [''00:01:15 Vaccines cause autism, according to some.'',
        ''00:02:30 This has been studied.''] \<and>
   any_word_in ''Vaccines'' ''00:01:15 Vaccines cause autism, according to some.'' \<and>
   re_search timestamp_pattern ''00:01:15 Vaccines cause autism, according to some.''
     = Some ''00:01:15'' \<and>
   \<not> any_word_in ''Vaccines'' ''00:02:30 This has been studied.''"
  by code_simp

text \<open>
  C8. A claim line that is empty or has whitespace only leaves the report and the outside
  world as they are, whatever the outside world is: no heading, no field, no search. So
  the loop of generate\_final\_report over the lines of the claims does what it does over
  the lines that are not blank.
\<close>

theorem blank_claim_lines_skipped:
  "((\<forall>c \<in> set claim. is_space c) \<longrightarrow>
      report_claim env timestamps verified_claims claim report w = (Inr report, w)) \<and>
   report_claims env timestamps verified_claims lines report w =
     report_claims env timestamps verified_claims
       (filter (\<lambda>claim. \<not> (\<forall>c \<in> set claim. is_space c)) lines) report w"
  using report_claim_blank [of claim env timestamps verified_claims report w]
    report_claims_filter [of env timestamps verified_claims lines report w]
  by blast

theorem blank_claim_lines_skipped_witness:
  "report_claim (scripted_env [] [] [''https://cdc.gov/y'']) [] ''ok'' ''  '' ''# R'' 0
     = (Inr ''# R'', 0) \<and>
   report_claims (scripted_env [] [] [''https://cdc.gov/y'']) [] ''ok''
     ['''', ''a: b'', ''  ''] ''# R'' 0
   = report_claims (scripted_env [] [] [''https://cdc.gov/y'']) [] ''ok'' [''a: b''] ''# R'' 0"
proof -
  have 1: "\<forall>c \<in> set ''  ''. is_space c" by (simp add: is_space_def)
  have 2: "filter (\<lambda>claim. \<not> (\<forall>c \<in> set claim. is_space c)) ['''', ''a: b'', ''  ''] = [''a: b'']"
    by (simp add: is_space_def)
  from blank_claim_lines_skipped
    [of "''  ''" "scripted_env [] [] [''https://cdc.gov/y'']" "[]" "''ok''" "''# R''" 0
        "['''', ''a: b'', ''  '']"] 1 2
  show ?thesis by simp
qed

text \<open>
  C9. Every string in every list of the index that extract\_timestamps returns has exactly
  8 characters, of the shape two digits, colon, two digits, colon, two digits.
\<close>

theorem index_holds_timestamps_only:
  assumes "extract_timestamps transcript claims = Inr idx"
    and "(topic, l) \<in> set idx" and "m \<in> set l"
  shows "length m = 8 \<and> is_timestamp m"
proof -
  from assms(1,2) have "l = hits topic (py_split (CHR ''\<newline>'') transcript)"
    using fold_claim_step_values [of topic l _ _ "[]"] by (auto simp: extract_timestamps_eq)
  with assms(3) have "is_timestamp m" by (auto dest: hits_are_timestamps)
  then show ?thesis by (simp add: is_timestamp_length)
qed

theorem index_holds_timestamps_only_witness:
  "extract_timestamps
     ''00:01:15 Vaccines cause autism, according to some.\<newline>00:02:30 This has been studied.''
     ''Vaccines: cause autism claim'' = Inr [(''Vaccines'', [''00:01:15''])] \<and>
   length ''00:01:15'' = 8 \<and> is_timestamp ''00:01:15''"
proof -
  have 1: "extract_timestamps
     ''00:01:15 Vaccines cause autism, according to some.\<newline>00:02:30 This has been studied.''
     ''Vaccines: cause autism claim'' = Inr [(''Vaccines'', [''00:01:15''])]" by code_simp
  have 2: "(''Vaccines'', [''00:01:15'']) \<in> set [(''Vaccines'', [''00:01:15''])]" by simp
  have 3: "''00:01:15'' \<in> set [''00:01:15'']" by simp
  from index_holds_timestamps_only [OF 1 2 3] 1 show ?thesis by blast
qed

text \<open>
  C10. When several lines of the claims have the same topic, the list of the topic in the
  index is the list that a single claim line with that topic produces: every line
  assigns the empty list to its topic before it scans the transcript, so nothing
  accumulates, and the index has one entry for the topic.
\<close>

theorem repeated_topic_reinitialised:
  assumes "claim \<in> set (py_split (CHR ''\<newline>'') claims)"
    and "claim_topic claim = Inr topic"
    and "CHR ''\<newline>'' \<notin> set single"
    and "claim_topic single = Inr topic"
  shows "\<exists>idx l. extract_timestamps transcript claims = Inr idx \<and>
           extract_timestamps transcript single = Inr [(topic, l)] \<and>
           map_of idx topic = Some l \<and>
           distinct (map fst idx)"
proof -
  let ?l = "hits topic (py_split (CHR ''\<newline>'') transcript)"
  obtain idx where idx: "extract_timestamps transcript claims = Inr idx"
    and d: "distinct (map fst idx)"
    using extract_timestamps_keys by blast
  from extract_timestamps_lookup [OF assms(1,2), of transcript] idx
  have "map_of idx topic = Some ?l" by simp
  moreover from assms(4) have "topic_text single = topic" by (simp add: claim_topic_eq)
  with assms(3) have "extract_timestamps transcript single = Inr [(topic, ?l)]"
    by (simp add: extract_timestamps_eq py_split_no_sep claim_step_def)
  ultimately show ?thesis using idx d by blast
qed

theorem repeated_topic_reinitialised_witness:
  "\<exists>idx l. extract_timestamps ''00:00:01 a\<newline>00:00:02 A'' ''a: x\<newline>b: y\<newline>a: z'' = Inr idx \<and>
     extract_timestamps ''00:00:01 a\<newline>00:00:02 A'' ''a: w'' = Inr [(''a'', l)] \<and>
     map_of idx ''a'' = Some l \<and> distinct (map fst idx)"
proof -
  have 1: "''a: z'' \<in> set (py_split (CHR ''\<newline>'') ''a: x\<newline>b: y\<newline>a: z'')" by code_simp
  have 2: "claim_topic ''a: z'' = Inr ''a''" by code_simp
  have 3: "CHR ''\<newline>'' \<notin> set ''a: w''" by simp
  have 4: "claim_topic ''a: w'' = Inr ''a''" by code_simp
  from repeated_topic_reinitialised [OF 1 2 3 4] show ?thesis .
qed

end
